theory Spec2Isabelle
  imports Main "HOL-Library.List_Lexorder" "HOL-Library.Char_ord"
begin

unbundle bit_operations_syntax

section \<open>A proof-of-work ledger node (\<open>bc_node_srvr.py\<close>)\<close>

text \<open>
  The node keeps a chain of blocks and a pool of unconfirmed transactions. A block's digest
  is the SHA-256 of its attribute dictionary written as JSON text with sorted keys. Both the
  JSON writer and the hash function come from Python's standard library; they are
  transcribed here so that digests of concrete blocks can be computed.
  Python exceptions are values of type \<open>exn\<close>: a function that can raise returns
  \<open>exn + 'a\<close>, with \<open>Inl\<close> for the raised exception.
\<close>

subsection \<open>JSON text: \<open>json.dumps(..., sort_keys=True)\<close>\<close>

text \<open>
  Strings are lists of code points below 256. A float is carried as the text
  \<open>float.__repr__\<close> gives for it, which is what \<open>json.dumps\<close> writes; the node
  does no arithmetic on floats. A dictionary is an association list in insertion order.
\<close>

datatype json =
    JNull
  | JBool bool
  | JInt int
  | JFloat string
  | JStr string
  | JList "json list"
  | JDict "(string \<times> json) list"

definition hexdigit :: "nat \<Rightarrow> char" where
  "hexdigit n = ''0123456789abcdef'' ! n"

fun str_nat :: "nat \<Rightarrow> string" where
  "str_nat n = (if n < 10 then [hexdigit n] else str_nat (n div 10) @ [hexdigit (n mod 10)])"

declare str_nat.simps [simp del]

definition str_int :: "int \<Rightarrow> string" where
  "str_int i = (if i < 0 then CHR ''-'' # str_nat (nat (- i)) else str_nat (nat i))"

text \<open>
  \<open>ensure_ascii\<close> is on by default: the quote and the backslash are escaped, the
  control characters with a short form use it, and every other code point outside
  \<open>' '..'~'\<close> becomes \<open>\uXXXX\<close>.
\<close>

definition escape_char :: "char \<Rightarrow> string" where
  "escape_char c =
     (if c = CHR 0x22 then [CHR 0x5C, CHR 0x22]
      else if c = CHR 0x5C then [CHR 0x5C, CHR 0x5C]
      else if c = CHR 0x0A then [CHR 0x5C, CHR ''n'']
      else if c = CHR 0x0D then [CHR 0x5C, CHR ''r'']
      else if c = CHR 0x09 then [CHR 0x5C, CHR ''t'']
      else if c = CHR 0x08 then [CHR 0x5C, CHR ''b'']
      else if c = CHR 0x0C then [CHR 0x5C, CHR ''f'']
      else if 32 \<le> (of_char c :: nat) \<and> (of_char c :: nat) \<le> 126 then [c]
      else [CHR 0x5C, CHR ''u'', CHR ''0'', CHR ''0'',
            hexdigit ((of_char c :: nat) div 16), hexdigit ((of_char c :: nat) mod 16)])"

definition encode_str :: "string \<Rightarrow> string" where
  "encode_str s = [CHR 0x22] @ concat (map escape_char s) @ [CHR 0x22]"

fun join :: "string \<Rightarrow> string list \<Rightarrow> string" where
  "join sep [] = []"
| "join sep [x] = x"
| "join sep (x # y # ys) = x @ sep @ join sep (y # ys)"

function dumps :: "json \<Rightarrow> string" where
  "dumps JNull = ''null''"
| "dumps (JBool b) = (if b then ''true'' else ''false'')"
| "dumps (JInt i) = str_int i"
| "dumps (JFloat r) = r"
| "dumps (JStr s) = encode_str s"
| "dumps (JList xs) = ''['' @ join '', '' (map dumps xs) @ '']''"
| "dumps (JDict kvs) =
     ''{'' @ join '', '' (map (\<lambda>kv. encode_str (fst kv) @ '': '' @ dumps (snd kv))
                              (sort_key fst kvs)) @ ''}''"
  by pat_completeness auto
termination
proof (relation "measure size")
  show "wf (measure size)" by simp
next
  fix xs :: "json list" and x assume "x \<in> set xs"
  then show "(x, JList xs) \<in> measure size"
    by (induction xs) auto
next
  fix kvs :: "(string \<times> json) list" and kv assume "kv \<in> set (sort_key fst kvs)"
  then have "kv \<in> set kvs" by simp
  then show "(snd kv, JDict kvs) \<in> measure size"
    by (induction kvs) auto
qed

subsection \<open>SHA-256 (FIPS 180-4), as \<open>hashlib.sha256(...).hexdigest()\<close> computes it\<close>

text \<open>32-bit words are natural numbers below \<open>2 ^ 32\<close>; every addition wraps around.\<close>

type_synonym sha_state = "nat \<times> nat \<times> nat \<times> nat \<times> nat \<times> nat \<times> nat \<times> nat"

type_synonym sha_window =
  "nat \<times> nat \<times> nat \<times> nat \<times> nat \<times> nat \<times> nat \<times> nat \<times>
   nat \<times> nat \<times> nat \<times> nat \<times> nat \<times> nat \<times> nat \<times> nat"

definition add32 :: "nat \<Rightarrow> nat \<Rightarrow> nat" where
  "add32 a b = (if a + b < 4294967296 then a + b else a + b - 4294967296)"

definition rotr :: "nat \<Rightarrow> nat \<Rightarrow> nat" where
  "rotr n x = x div 2 ^ n + (x mod 2 ^ n) * 2 ^ (32 - n)"

definition shr :: "nat \<Rightarrow> nat \<Rightarrow> nat" where
  "shr n x = x div 2 ^ n"

definition not32 :: "nat \<Rightarrow> nat" where
  "not32 x = 4294967295 - x"

definition bsig0 :: "nat \<Rightarrow> nat" where
  "bsig0 x = rotr 2 x XOR rotr 13 x XOR rotr 22 x"

definition bsig1 :: "nat \<Rightarrow> nat" where
  "bsig1 x = rotr 6 x XOR rotr 11 x XOR rotr 25 x"

definition ssig0 :: "nat \<Rightarrow> nat" where
  "ssig0 x = rotr 7 x XOR rotr 18 x XOR shr 3 x"

definition ssig1 :: "nat \<Rightarrow> nat" where
  "ssig1 x = rotr 17 x XOR rotr 19 x XOR shr 10 x"

definition ch :: "nat \<Rightarrow> nat \<Rightarrow> nat \<Rightarrow> nat" where
  "ch x y z = (x AND y) XOR (not32 x AND z)"

definition maj :: "nat \<Rightarrow> nat \<Rightarrow> nat \<Rightarrow> nat" where
  "maj x y z = (x AND y) XOR (x AND z) XOR (y AND z)"

text \<open>
  The round constants are the first 32 bits of the fractional parts of the cube roots of the
  first 64 primes, the initial state those of the square roots of the first 8 primes.
\<close>

definition K256 :: "nat list" where
  "K256 = [
     1116352408, 1899447441, 3049323471, 3921009573, 961987163, 1508970993,
     2453635748, 2870763221, 3624381080, 310598401, 607225278, 1426881987,
     1925078388, 2162078206, 2614888103, 3248222580, 3835390401, 4022224774,
     264347078, 604807628, 770255983, 1249150122, 1555081692, 1996064986,
     2554220882, 2821834349, 2952996808, 3210313671, 3336571891, 3584528711,
     113926993, 338241895, 666307205, 773529912, 1294757372, 1396182291,
     1695183700, 1986661051, 2177026350, 2456956037, 2730485921, 2820302411,
     3259730800, 3345764771, 3516065817, 3600352804, 4094571909, 275423344,
     430227734, 506948616, 659060556, 883997877, 958139571, 1322822218,
     1537002063, 1747873779, 1955562222, 2024104815, 2227730452, 2361852424,
     2428436474, 2756734187, 3204031479, 3329325298]"

definition H256 :: sha_state where
  "H256 = (1779033703, 3144134277, 1013904242, 2773480762, 1359893119, 2600822924,
     528734635, 1541459225)"

definition sha_pad :: "string \<Rightarrow> nat list" where
  "sha_pad s = map of_char s @ [0x80] @ replicate ((119 - length s mod 64) mod 64) 0
     @ map (\<lambda>i. (8 * length s) div 256 ^ i mod 256) [7, 6, 5, 4, 3, 2, 1, 0]"

fun be_words :: "nat list \<Rightarrow> nat list" where
  "be_words (a # b # c # d # r) = (a * 16777216 + b * 65536 + c * 256 + d) # be_words r"
| "be_words _ = []"

definition sha_window_of :: "nat list \<Rightarrow> sha_window" where
  "sha_window_of w =
     (w ! 0, w ! 1, w ! 2, w ! 3, w ! 4, w ! 5, w ! 6, w ! 7,
      w ! 8, w ! 9, w ! 10, w ! 11, w ! 12, w ! 13, w ! 14, w ! 15)"

fun sha_step :: "sha_state \<Rightarrow> sha_window \<Rightarrow> nat \<Rightarrow> nat \<Rightarrow> nat \<Rightarrow> sha_state \<times> sha_window" where
  "sha_step (a, b, c, d, e, f, g, h)
     (w0, w1, w2, w3, w4, w5, w6, w7, w8, w9, w10, w11, w12, w13, w14, w15) t1 t2 wn =
     ((add32 t1 t2, a, b, c, add32 d t1, e, f, g),
      (w1, w2, w3, w4, w5, w6, w7, w8, w9, w10, w11, w12, w13, w14, w15, wn))"

fun sha_round :: "nat \<Rightarrow> sha_state \<times> sha_window \<Rightarrow> sha_state \<times> sha_window" where
  "sha_round k ((a, b, c, d, e, f, g, h),
     (w0, w1, w2, w3, w4, w5, w6, w7, w8, w9, w10, w11, w12, w13, w14, w15)) =
     sha_step (a, b, c, d, e, f, g, h)
       (w0, w1, w2, w3, w4, w5, w6, w7, w8, w9, w10, w11, w12, w13, w14, w15)
       (add32 (add32 (add32 (add32 h (bsig1 e)) (ch e f g)) k) w0)
       (add32 (bsig0 a) (maj a b c))
       (add32 (add32 (add32 (ssig1 w14) w9) (ssig0 w1)) w0)"

fun sha_rounds :: "nat list \<Rightarrow> sha_state \<times> sha_window \<Rightarrow> sha_state \<times> sha_window" where
  "sha_rounds [] sw = sw"
| "sha_rounds (k # ks) sw = sha_rounds ks (sha_round k sw)"

fun sha_add :: "sha_state \<Rightarrow> sha_state \<Rightarrow> sha_state" where
  "sha_add (a, b, c, d, e, f, g, h) (a', b', c', d', e', f', g', h') =
     (add32 a a', add32 b b', add32 c c', add32 d d', add32 e e', add32 f f', add32 g g',
      add32 h h')"

definition sha_compress :: "sha_state \<Rightarrow> nat list \<Rightarrow> sha_state" where
  "sha_compress s w = sha_add s (fst (sha_rounds K256 (s, sha_window_of w)))"

fun sha_blocks :: "sha_state \<Rightarrow> nat list \<Rightarrow> sha_state" where
  "sha_blocks s [] = s"
| "sha_blocks s (w # ws) = sha_blocks (sha_compress s (take 16 (w # ws))) (drop 16 (w # ws))"

definition hexchar :: "nat \<Rightarrow> char" where
  "hexchar n = ''0123456789abcdef'' ! n"

definition hex32 :: "nat \<Rightarrow> string" where
  "hex32 w = map (\<lambda>i. hexchar (w div 16 ^ i mod 16)) [7, 6, 5, 4, 3, 2, 1, 0]"

fun hex_state :: "sha_state \<Rightarrow> string" where
  "hex_state (a, b, c, d, e, f, g, h) =
     hex32 a @ hex32 b @ hex32 c @ hex32 d @ hex32 e @ hex32 f @ hex32 g @ hex32 h"

definition sha256 :: "string \<Rightarrow> string" where
  "sha256 s = hex_state (sha_blocks H256 (be_words (sha_pad s)))"

subsection \<open>\<open>class Block\<close>\<close>

text \<open>
  The constructor sets five attributes. \<open>hash\<close> is a sixth attribute that is absent until
  some caller assigns it (\<open>None\<close> here), and that \<open>delattr\<close> removes again.
  The attributes have the types the node gives them: integers for index and nonce, a
  string for the previous hash, a list of JSON values for the transactions, a JSON number
  for the timestamp.
\<close>

record Block =
  index :: int
  transactions :: "json list"
  timestamp :: json
  previous_hash :: string
  nonce :: int
  hash :: "string option"

definition Block_init :: "int \<Rightarrow> json list \<Rightarrow> json \<Rightarrow> string \<Rightarrow> int \<Rightarrow> Block" where
  "Block_init i txs ts prev n =
     \<lparr>index = i, transactions = txs, timestamp = ts, previous_hash = prev, nonce = n,
      hash = None\<rparr>"

text \<open>\<open>self.__dict__\<close>: the attributes the object has at the moment, in insertion order.\<close>

definition block_dict :: "Block \<Rightarrow> (string \<times> json) list" where
  "block_dict b =
     [(''index'', JInt (index b)), (''transactions'', JList (transactions b)),
      (''timestamp'', timestamp b), (''previous_hash'', JStr (previous_hash b)),
      (''nonce'', JInt (nonce b))]
     @ (case hash b of None \<Rightarrow> [] | Some h \<Rightarrow> [(''hash'', JStr h)])"

definition compute_hash :: "Block \<Rightarrow> string" where
  "compute_hash b = sha256 (dumps (JDict (block_dict b)))"

subsection \<open>\<open>class Blockchain\<close>\<close>

datatype exn = IndexError | AttributeError | Exception string

record Blockchain =
  unconfirmed_transactions :: "json list"
  chain :: "Block list"

definition difficulty :: nat where
  "difficulty = 2"

definition Blockchain_init :: Blockchain where
  "Blockchain_init = \<lparr>unconfirmed_transactions = [], chain = []\<rparr>"

definition create_genesis_block :: "Blockchain \<Rightarrow> Blockchain" where
  "create_genesis_block self =
     (let genesis_block = Block_init 0 [] (JInt 0) ''0'' 0;
          genesis_block = genesis_block\<lparr>hash := Some (compute_hash genesis_block)\<rparr>
      in self\<lparr>chain := chain self @ [genesis_block]\<rparr>)"

text \<open>\<open>self.chain[-1]\<close> raises \<open>IndexError\<close> on an empty chain.\<close>

definition last_block :: "Blockchain \<Rightarrow> exn + Block" where
  "last_block self = (if chain self = [] then Inl IndexError else Inr (last (chain self)))"

text \<open>Reading \<open>block.hash\<close> raises \<open>AttributeError\<close> while the attribute is absent.\<close>

definition getattr_hash :: "Block \<Rightarrow> exn + string" where
  "getattr_hash b = (case hash b of None \<Rightarrow> Inl AttributeError | Some h \<Rightarrow> Inr h)"

definition startswith :: "string \<Rightarrow> string \<Rightarrow> bool" where
  "startswith s p = (take (length p) s = p)"

definition is_valid_proof :: "Block \<Rightarrow> string \<Rightarrow> bool" where
  "is_valid_proof block block_hash =
     (startswith block_hash (replicate difficulty CHR ''0'') \<and>
      block_hash = compute_hash block)"

text \<open>
  \<open>add_block\<close> returns the ledger together with the boolean the method returns. On
  acceptance the caller's block object gets \<open>hash = proof\<close> and is appended.
\<close>

definition add_block :: "Blockchain \<Rightarrow> Block \<Rightarrow> string \<Rightarrow> exn + (Blockchain \<times> bool)" where
  "add_block self block proof =
     (case last_block self of
        Inl e \<Rightarrow> Inl e
      | Inr lb \<Rightarrow>
         (case getattr_hash lb of
            Inl e \<Rightarrow> Inl e
          | Inr prev \<Rightarrow>
              if prev \<noteq> previous_hash block then Inr (self, False)
              else if \<not> is_valid_proof block proof then Inr (self, False)
              else Inr (self\<lparr>chain := chain self @ [block\<lparr>hash := Some proof\<rparr>]\<rparr>, True)))"

text \<open>
  The search loop of \<open>proof_of_work\<close> has no bound: it is a partial function, and
  \<open>None\<close> stands for a search that never ends. The result is the block as the search
  leaves it, with the digest it returns.
\<close>

partial_function (option) pow_loop :: "Block \<Rightarrow> string \<Rightarrow> (Block \<times> string) option" where
  "pow_loop block computed_hash =
     (if startswith computed_hash (replicate difficulty CHR ''0'')
      then Some (block, computed_hash)
      else pow_loop (block\<lparr>nonce := nonce block + 1\<rparr>)
             (compute_hash (block\<lparr>nonce := nonce block + 1\<rparr>)))"

definition proof_of_work :: "Block \<Rightarrow> (Block \<times> string) option" where
  "proof_of_work block =
     pow_loop (block\<lparr>nonce := 0\<rparr>) (compute_hash (block\<lparr>nonce := 0\<rparr>))"

definition add_new_transaction :: "Blockchain \<Rightarrow> json \<Rightarrow> Blockchain" where
  "add_new_transaction self transaction =
     self\<lparr>unconfirmed_transactions := unconfirmed_transactions self @ [transaction]\<rparr>"

subsubsection \<open>\<open>check_chain_validity\<close>\<close>

text \<open>
  The elements of the chain handed to \<open>check_chain_validity\<close> are Python objects: block
  objects, or the dictionaries a peer's \<open>/chain\<close> response decodes to. A dictionary has
  keys, not attributes, so reading \<open>.hash\<close> from it raises \<open>AttributeError\<close>.
  A dictionary of block data has the six keys of a sealed block, at the types above.
\<close>

record block_data =
  bd_index :: int
  bd_transactions :: "json list"
  bd_timestamp :: json
  bd_previous_hash :: string
  bd_nonce :: int
  bd_hash :: string

datatype chain_item = BlockObj Block | BlockDict block_data

fun item_hash :: "chain_item \<Rightarrow> exn + string" where
  "item_hash (BlockObj b) = getattr_hash b"
| "item_hash (BlockDict d) = Inl AttributeError"

fun item_delattr_hash :: "chain_item \<Rightarrow> exn + chain_item" where
  "item_delattr_hash (BlockObj b) =
     (case hash b of None \<Rightarrow> Inl AttributeError | Some h \<Rightarrow> Inr (BlockObj (b\<lparr>hash := None\<rparr>)))"
| "item_delattr_hash (BlockDict d) = Inl AttributeError"

fun item_previous_hash :: "chain_item \<Rightarrow> exn + string" where
  "item_previous_hash (BlockObj b) = Inr (previous_hash b)"
| "item_previous_hash (BlockDict d) = Inl AttributeError"

fun item_set_hash :: "chain_item \<Rightarrow> string \<Rightarrow> exn + chain_item" where
  "item_set_hash (BlockObj b) h = Inr (BlockObj (b\<lparr>hash := Some h\<rparr>))"
| "item_set_hash (BlockDict d) h = Inl AttributeError"

text \<open>
  Looking a name up on the class: of the names that take a block and a digest, the class
  defines \<open>is_valid_proof\<close> only; any other name raises \<open>AttributeError\<close>.
\<close>

definition Blockchain_getattr :: "string \<Rightarrow> exn + (chain_item \<Rightarrow> string \<Rightarrow> exn + bool)" where
  "Blockchain_getattr name =
     (if name = ''is_valid_proof''
      then Inr (\<lambda>item h. case item of BlockObj b \<Rightarrow> Inr (is_valid_proof b h)
                                      | BlockDict d \<Rightarrow> Inl AttributeError)
      else Inl AttributeError)"

text \<open>
  One pass of the loop body of \<open>check_chain_validity\<close>, in Python's evaluation order:
  read \<open>block.hash\<close>, delete the attribute, look \<open>cls.is_valid\<close> up, evaluate its
  arguments \<open>block\<close> and \<open>block.hash\<close>, call it, compare \<open>previous_hash\<close>, and on
  success put the hash back. The state of the loop is \<open>previous_hash\<close>; the blocks
  are mutated in place and the chain itself is not returned.
\<close>

fun check_chain_loop :: "string \<Rightarrow> chain_item list \<Rightarrow> exn + bool" where
  "check_chain_loop prev [] = Inr True"
| "check_chain_loop prev (block # rest) =
     (case item_hash block of
        Inl e \<Rightarrow> Inl e
      | Inr block_hash \<Rightarrow>
         (case item_delattr_hash block of
            Inl e \<Rightarrow> Inl e
          | Inr block' \<Rightarrow>
             (case Blockchain_getattr ''is_valid'' of
                Inl e \<Rightarrow> Inl e
              | Inr is_valid \<Rightarrow>
                 (case item_hash block' of
                    Inl e \<Rightarrow> Inl e
                  | Inr h \<Rightarrow>
                     (case is_valid block' h of
                        Inl e \<Rightarrow> Inl e
                      | Inr ok \<Rightarrow>
                          if \<not> ok then Inr False
                          else
                            (case item_previous_hash block' of
                               Inl e \<Rightarrow> Inl e
                             | Inr p \<Rightarrow>
                                 if prev \<noteq> p then Inr False
                                 else
                                   (case item_set_hash block' block_hash of
                                      Inl e \<Rightarrow> Inl e
                                    | Inr block'' \<Rightarrow> check_chain_loop block_hash rest)))))))"

definition check_chain_validity :: "chain_item list \<Rightarrow> exn + bool" where
  "check_chain_validity chn = check_chain_loop ''0'' chn"

subsubsection \<open>\<open>mine\<close>\<close>

text \<open>
  \<open>mine_admit\<close> is the tail of \<open>mine\<close> after the search has returned: the call of
  \<open>add_block\<close>, whose result is not looked at, the reset of the pool and \<open>return True\<close>.
  \<open>mine\<close> takes the clock reading \<open>time.time()\<close> as an argument; \<open>None\<close> is a
  search that never ends.
\<close>

definition mine_admit :: "Blockchain \<Rightarrow> Block \<Rightarrow> string \<Rightarrow> exn + (Blockchain \<times> bool)" where
  "mine_admit self new_block proof =
     (case add_block self new_block proof of
        Inl e \<Rightarrow> Inl e
      | Inr (self', added) \<Rightarrow> Inr (self'\<lparr>unconfirmed_transactions := []\<rparr>, True))"

definition mine :: "Blockchain \<Rightarrow> json \<Rightarrow> (exn + (Blockchain \<times> bool)) option" where
  "mine self now =
     (if unconfirmed_transactions self = [] then Some (Inr (self, False))
      else
        (case last_block self of
           Inl e \<Rightarrow> Some (Inl e)
         | Inr lb \<Rightarrow>
            (case getattr_hash lb of
               Inl e \<Rightarrow> Some (Inl e)
             | Inr prev \<Rightarrow>
                (case proof_of_work
                        (Block_init (index lb + 1) (unconfirmed_transactions self) now prev 0) of
                   None \<Rightarrow> None
                 | Some (new_block, proof) \<Rightarrow> Some (mine_admit self new_block proof)))))"

subsection \<open>The node: chain dumps and consensus\<close>

definition block_of_data :: "block_data \<Rightarrow> Block" where
  "block_of_data d =
     Block_init (bd_index d) (bd_transactions d) (bd_timestamp d) (bd_previous_hash d)
       (bd_nonce d)"

text \<open>\<open>verify_and_add_block\<close>, the handler of \<open>/add_block\<close>, on the node's ledger.\<close>

definition verify_and_add_block :: "Blockchain \<Rightarrow> block_data \<Rightarrow> exn + (Blockchain \<times> bool)" where
  "verify_and_add_block blockchain d = add_block blockchain (block_of_data d) (bd_hash d)"

text \<open>
  \<open>create_chain_from_dump\<close>: the loop runs over \<open>enumerate(chain_dump)\<close> and skips
  index 0.
\<close>

fun create_chain_loop :: "Blockchain \<Rightarrow> nat \<Rightarrow> block_data list \<Rightarrow> exn + Blockchain" where
  "create_chain_loop generated idx [] = Inr generated"
| "create_chain_loop generated idx (d # rest) =
     (if idx = 0 then create_chain_loop generated (Suc idx) rest
      else
        (case add_block generated (block_of_data d) (bd_hash d) of
           Inl e \<Rightarrow> Inl e
         | Inr (generated', added) \<Rightarrow>
             if \<not> added then Inl (Exception ''The chain dump is tampered!!'')
             else create_chain_loop generated' (Suc idx) rest))"

definition create_chain_from_dump :: "block_data list \<Rightarrow> exn + Blockchain" where
  "create_chain_from_dump chain_dump =
     create_chain_loop (create_genesis_block Blockchain_init) 0 chain_dump"

text \<open>
  The part of \<open>register_with_existing_node\<close> that touches the ledger:
  \<open>blockchain = create_chain_from_dump(chain_dump)\<close>. The assignment happens only if the
  call returns; the exception, if any, leaves the handler.
\<close>

definition sync_from_dump :: "Blockchain \<Rightarrow> block_data list \<Rightarrow> Blockchain \<times> exn option" where
  "sync_from_dump blockchain chain_dump =
     (case create_chain_from_dump chain_dump of
        Inl e \<Rightarrow> (blockchain, Some e)
      | Inr generated \<Rightarrow> (generated, None))"

text \<open>
  \<open>consensus\<close> reads, from every peer in turn, the pair of \<open>length\<close> and \<open>chain\<close> of
  its \<open>/chain\<close> response. The peers' responses are an argument, in the order of
  iteration. After the call the global \<open>blockchain\<close> is either the ledger object it was
  or the raw list of dictionaries that was assigned to it.
\<close>

datatype node_blockchain = Ledger Blockchain | RawChain "block_data list"

fun consensus_loop ::
  "(int \<times> block_data list) list \<Rightarrow> int \<Rightarrow> block_data list option \<Rightarrow> exn + block_data list option" where
  "consensus_loop [] current_len longest_chain = Inr longest_chain"
| "consensus_loop ((len, chn) # peers) current_len longest_chain =
     (if len > current_len then
        (case check_chain_validity (map BlockDict chn) of
           Inl e \<Rightarrow> Inl e
         | Inr valid \<Rightarrow>
             if valid then consensus_loop peers len (Some chn)
             else consensus_loop peers current_len longest_chain)
      else consensus_loop peers current_len longest_chain)"

definition consensus ::
  "Blockchain \<Rightarrow> (int \<times> block_data list) list \<Rightarrow> exn + (node_blockchain \<times> bool)" where
  "consensus blockchain peers =
     (case consensus_loop peers (int (length (chain blockchain))) None of
        Inl e \<Rightarrow> Inl e
      | Inr longest_chain \<Rightarrow>
         (case longest_chain of
            None \<Rightarrow> Inr (Ledger blockchain, False)
          | Some chn \<Rightarrow>
              if chn \<noteq> [] then Inr (RawChain chn, True)
              else Inr (Ledger blockchain, False)))"

subsection \<open>Ledgers the node can reach\<close>

text \<open>
  The node starts from \<open>Blockchain()\<close> followed by \<open>create_genesis_block()\<close>. From
  there the ledger changes by \<open>add_new_transaction\<close>, by \<open>mine\<close> when it returns, and by
  \<open>add_block\<close> on a block built from announced data, as \<open>/add_block\<close> does it.
\<close>

definition genesis_ledger :: Blockchain where
  "genesis_ledger = create_genesis_block Blockchain_init"

inductive reachable :: "Blockchain \<Rightarrow> bool" where
  reachable_init: "reachable genesis_ledger"
| reachable_queue: "reachable l \<Longrightarrow> reachable (add_new_transaction l tx)"
| reachable_mine: "reachable l \<Longrightarrow> mine l now = Some (Inr (l', r)) \<Longrightarrow> reachable l'"
| reachable_admit:
    "reachable l \<Longrightarrow> verify_and_add_block l d = Inr (l', r) \<Longrightarrow> reachable l'"

text \<open>The digest has at least \<open>n\<close> leading \<open>'0'\<close> characters.\<close>

definition leading_zeros :: "nat \<Rightarrow> string \<Rightarrow> bool" where
  "leading_zeros n s = (n \<le> length s \<and> list_all (\<lambda>c. c = CHR ''0'') (take n s))"

text \<open>The content digest of a block, recomputed with the \<open>hash\<close> attribute removed.\<close>

definition content_digest :: "Block \<Rightarrow> string" where
  "content_digest b = compute_hash (b\<lparr>hash := None\<rparr>)"

subsection \<open>Sample data\<close>

text \<open>
  The genesis block as \<open>create_genesis_block\<close> seals it, one transaction, and the block
  that \<open>mine\<close> builds from them at clock reading \<open>512.5\<close>; its search ends at nonce 1.
\<close>

definition genesis_digest :: string where
  "genesis_digest = ''6dbf23122cb5046cc5c0c1b245c75f8e43c59ca8ffeac292715e5078e631d0c9''"

definition genesis_sealed :: Block where
  "genesis_sealed = (Block_init 0 [] (JInt 0) ''0'' 0)\<lparr>hash := Some genesis_digest\<rparr>"

definition sample_tx :: json where
  "sample_tx = JDict [(''author'', JStr ''a''), (''content'', JStr ''hi'')]"

definition sample_now :: json where
  "sample_now = JFloat ''512.5''"

definition sample_pending :: Blockchain where
  "sample_pending = add_new_transaction genesis_ledger sample_tx"

definition sample_candidate :: Block where
  "sample_candidate = Block_init 1 [sample_tx] sample_now genesis_digest 0"

definition sample_proof :: string where
  "sample_proof = ''00d19929f2a352ceed0ecdd3b6b6e9fc107d3bd5550bc671e700573af8e902c1''"

definition sample_sealed :: Block where
  "sample_sealed = sample_candidate\<lparr>nonce := 1, hash := Some sample_proof\<rparr>"

definition sample_mined :: Blockchain where
  "sample_mined = \<lparr>unconfirmed_transactions = [], chain = [genesis_sealed, sample_sealed]\<rparr>"

text \<open>The \<open>/chain\<close> dump of \<open>sample_mined\<close>, and the same dump with one character of the
  transaction's content changed and the stored hash kept.\<close>

definition genesis_data :: block_data where
  "genesis_data =
     \<lparr>bd_index = 0, bd_transactions = [], bd_timestamp = JInt 0, bd_previous_hash = ''0'',
      bd_nonce = 0, bd_hash = genesis_digest\<rparr>"

definition sample_data :: block_data where
  "sample_data =
     \<lparr>bd_index = 1, bd_transactions = [sample_tx], bd_timestamp = sample_now,
      bd_previous_hash = genesis_digest, bd_nonce = 1, bd_hash = sample_proof\<rparr>"

definition sample_dump :: "block_data list" where
  "sample_dump = [genesis_data, sample_data]"

definition tampered_data :: block_data where
  "tampered_data =
     sample_data\<lparr>bd_transactions :=
       [JDict [(''author'', JStr ''a''), (''content'', JStr ''ho'')]]\<rparr>"

definition tampered_dump :: "block_data list" where
  "tampered_dump = [genesis_data, tampered_data]"

text \<open>
  A ledger whose head moved while a search ran: the candidate \<open>sample_candidate\<close> was built
  on the genesis block, and before its search returned the node admitted a block that a
  peer had announced. One transaction was queued meanwhile.
\<close>

definition peer_sealed :: Block where
  "peer_sealed =
     \<lparr>index = 1, transactions = [JDict [(''author'', JStr ''b''), (''content'', JStr ''yo'')]],
      timestamp = JFloat ''7.5'', previous_hash = genesis_digest, nonce = 408,
      hash = Some ''00fbab512fb8fa881d2e7bbabeea9ced09f30fcee50a90f08a9b194049785c13''\<rparr>"

definition moved_ledger :: Blockchain where
  "moved_ledger =
     \<lparr>unconfirmed_transactions = [sample_tx, JDict [(''author'', JStr ''c''), (''content'', JStr ''late'')]],
      chain = [genesis_sealed, peer_sealed]\<rparr>"

subsection \<open>The ledger invariant\<close>

text \<open>
  A sealed block carries the digest of its own content; a proved block carries a digest
  with the required leading zeros. In a ledger in good standing every block is sealed and
  every block after the first is proved.
\<close>

definition sealed_ok :: "Block \<Rightarrow> bool" where
  "sealed_ok b = (hash b = Some (content_digest b))"

definition proved_ok :: "Block \<Rightarrow> bool" where
  "proved_ok b = (case hash b of None \<Rightarrow> False | Some h \<Rightarrow> leading_zeros difficulty h)"

definition ledger_inv :: "Blockchain \<Rightarrow> bool" where
  "ledger_inv l =
     (chain l \<noteq> [] \<and> list_all sealed_ok (chain l) \<and> list_all proved_ok (tl (chain l)))"

section \<open>Computed digests\<close>

lemma replicate_numeral_unfold: "replicate (numeral k) x = x # replicate (pred_numeral k) x"
  by (simp add: numeral_eq_Suc)

lemmas sha_eval = sha256_def sha_pad_def H256_def K256_def sha_compress_def sha_window_of_def
  bsig0_def bsig1_def ssig0_def ssig1_def ch_def maj_def rotr_def hex32_def hexchar_def
  add32_def shr_def not32_def replicate_numeral_unfold

lemma sha256_genesis:
  \<open>sha256 ''{"index": 0, "nonce": 0, "previous_hash": "0", "timestamp": 0, "transactions": []}''
     = ''6dbf23122cb5046cc5c0c1b245c75f8e43c59ca8ffeac292715e5078e631d0c9''\<close>
  by (simp add: sha_eval)

lemma sha256_candidate_0:
  \<open>sha256 ''{"index": 1, "nonce": 0, "previous_hash": "6dbf23122cb5046cc5c0c1b245c75f8e43c59ca8ffeac292715e5078e631d0c9", "timestamp": 512.5, "transactions": [{"author": "a", "content": "hi"}]}''
     = ''cdd6224d2366787963bf9fbcdc7cb5fd554f824dbed5d110833bf7083bade690''\<close>
  by (simp add: sha_eval)

lemma sha256_candidate_1:
  \<open>sha256 ''{"index": 1, "nonce": 1, "previous_hash": "6dbf23122cb5046cc5c0c1b245c75f8e43c59ca8ffeac292715e5078e631d0c9", "timestamp": 512.5, "transactions": [{"author": "a", "content": "hi"}]}''
     = ''00d19929f2a352ceed0ecdd3b6b6e9fc107d3bd5550bc671e700573af8e902c1''\<close>
  by (simp add: sha_eval)

lemma sha256_sample_sealed:
  \<open>sha256 ''{"hash": "00d19929f2a352ceed0ecdd3b6b6e9fc107d3bd5550bc671e700573af8e902c1", "index": 1, "nonce": 1, "previous_hash": "6dbf23122cb5046cc5c0c1b245c75f8e43c59ca8ffeac292715e5078e631d0c9", "timestamp": 512.5, "transactions": [{"author": "a", "content": "hi"}]}''
     = ''40b0b273b8dbbf2eb3d382a42af88abe40293afad5c67868d70d252a41b4b395''\<close>
  by (simp add: sha_eval)

lemma sha256_tampered:
  \<open>sha256 ''{"index": 1, "nonce": 1, "previous_hash": "6dbf23122cb5046cc5c0c1b245c75f8e43c59ca8ffeac292715e5078e631d0c9", "timestamp": 512.5, "transactions": [{"author": "a", "content": "ho"}]}''
     = ''c51f7317de7c4a5c2cbbef05a6931e850c9073a4a51b5ba8402b16e59e23ef1b''\<close>
  by (simp add: sha_eval)

section \<open>Basic facts\<close>

lemma startswith_zeros_iff:
  "startswith s (replicate n CHR ''0'') = leading_zeros n s"
proof
  assume "startswith s (replicate n CHR ''0'')"
  then have eq: "take n s = replicate n CHR ''0''"
    by (simp add: startswith_def)
  then have "length (take n s) = n"
    by (metis length_replicate)
  then have "n \<le> length s"
    by simp
  moreover have "list_all (\<lambda>c. c = CHR ''0'') (take n s)"
    unfolding eq by (simp add: list_all_iff)
  ultimately show "leading_zeros n s"
    by (simp add: leading_zeros_def)
next
  assume "leading_zeros n s"
  then have len: "n \<le> length s" and all: "\<forall>c \<in> set (take n s). c = CHR ''0''"
    by (simp_all add: leading_zeros_def list_all_iff)
  from len have "length (take n s) = n"
    by simp
  with all have "take n s = replicate n CHR ''0''"
    by (metis replicate_length_same)
  then show "startswith s (replicate n CHR ''0'')"
    by (simp add: startswith_def)
qed

lemma hash_None_update: "hash b = None \<Longrightarrow> b\<lparr>hash := None\<rparr> = b"
  by (cases b) simp

lemma unsealed_content_digest: "hash b = None \<Longrightarrow> content_digest b = compute_hash b"
  by (simp add: content_digest_def hash_None_update)

lemma sealed_content_digest:
  "hash b = None \<Longrightarrow> content_digest (b\<lparr>hash := Some p\<rparr>) = compute_hash b"
  by (simp add: content_digest_def hash_None_update)

subsection \<open>The text that is hashed\<close>



subsection \<open>\<open>add_block\<close>\<close>

lemma add_block_linkage:
  assumes "last_block l = Inr lb" and "hash lb = Some h" and "previous_hash b \<noteq> h"
  shows "add_block l b p = Inr (l, False)"
  using assms by (auto simp: add_block_def getattr_hash_def)

lemma add_block_accepts:
  assumes "last_block l = Inr lb" and "hash lb = Some h" and "previous_hash b = h"
    and "is_valid_proof b p"
  shows "add_block l b p = Inr (l\<lparr>chain := chain l @ [b\<lparr>hash := Some p\<rparr>]\<rparr>, True)"
  using assms by (simp add: add_block_def getattr_hash_def)

lemma add_block_cases:
  assumes "add_block l b p = Inr (l', r)"
  shows "(l' = l \<and> \<not> r) \<or>
         (l' = l\<lparr>chain := chain l @ [b\<lparr>hash := Some p\<rparr>]\<rparr> \<and> r \<and> is_valid_proof b p)"
  using assms
  by (auto simp: add_block_def split: sum.splits if_splits)

subsection \<open>The search\<close>

lemma pow_loop_finds:
  assumes "startswith (compute_hash (b\<lparr>nonce := int n\<rparr>)) (replicate difficulty CHR ''0'')"
    and "\<forall>k. j \<le> k \<and> k < n \<longrightarrow>
           \<not> startswith (compute_hash (b\<lparr>nonce := int k\<rparr>)) (replicate difficulty CHR ''0'')"
    and "j \<le> n"
  shows "pow_loop (b\<lparr>nonce := int j\<rparr>) (compute_hash (b\<lparr>nonce := int j\<rparr>)) =
         Some (b\<lparr>nonce := int n\<rparr>, compute_hash (b\<lparr>nonce := int n\<rparr>))"
  using assms
proof (induction "n - j" arbitrary: j)
  case 0
  then have "j = n" by simp
  with "0.prems"(1) show ?case
    by (subst pow_loop.simps) simp
next
  case (Suc d)
  then have lt: "j < n" by simp
  with Suc.prems(2) have miss:
    "\<not> startswith (compute_hash (b\<lparr>nonce := int j\<rparr>)) (replicate difficulty CHR ''0'')"
    by simp
  have step: "int j + 1 = int (Suc j)" by simp
  have "pow_loop (b\<lparr>nonce := int (Suc j)\<rparr>) (compute_hash (b\<lparr>nonce := int (Suc j)\<rparr>)) =
        Some (b\<lparr>nonce := int n\<rparr>, compute_hash (b\<lparr>nonce := int n\<rparr>))"
  proof (rule Suc.hyps(1))
    show "d = n - Suc j" using Suc.hyps(2) by simp
    show "startswith (compute_hash (b\<lparr>nonce := int n\<rparr>)) (replicate difficulty CHR ''0'')"
      by (rule Suc.prems(1))
    show "\<forall>k. Suc j \<le> k \<and> k < n \<longrightarrow>
            \<not> startswith (compute_hash (b\<lparr>nonce := int k\<rparr>)) (replicate difficulty CHR ''0'')"
      using Suc.prems(2) by simp
    show "Suc j \<le> n" using lt by simp
  qed
  with miss show ?case
    by (subst pow_loop.simps) (simp add: step del: of_nat_Suc)
qed

lemma proof_of_work_least:
  assumes "\<exists>n. 0 \<le> n \<and> leading_zeros difficulty (compute_hash (b\<lparr>nonce := n\<rparr>))"
  shows "\<exists>m. proof_of_work b = Some (b\<lparr>nonce := m\<rparr>, compute_hash (b\<lparr>nonce := m\<rparr>))
           \<and> 0 \<le> m
           \<and> leading_zeros difficulty (compute_hash (b\<lparr>nonce := m\<rparr>))
           \<and> (\<forall>k. 0 \<le> k \<and> k < m \<longrightarrow>
                 \<not> leading_zeros difficulty (compute_hash (b\<lparr>nonce := k\<rparr>)))
           \<and> is_valid_proof (b\<lparr>nonce := m\<rparr>) (compute_hash (b\<lparr>nonce := m\<rparr>))"
proof -
  define good where
    "good k = startswith (compute_hash (b\<lparr>nonce := int k\<rparr>)) (replicate difficulty CHR ''0'')"
    for k
  from assms obtain n where "0 \<le> n"
    and "startswith (compute_hash (b\<lparr>nonce := n\<rparr>)) (replicate difficulty CHR ''0'')"
    unfolding startswith_zeros_iff by blast
  then have "good (nat n)"
    by (simp add: good_def)
  define m where "m = (LEAST k. good k)"
  have gm: "good m"
    unfolding m_def using \<open>good (nat n)\<close> by (rule LeastI)
  have least: "\<not> good k" if "k < m" for k
    using that unfolding m_def by (rule not_less_Least)
  have "pow_loop (b\<lparr>nonce := int 0\<rparr>) (compute_hash (b\<lparr>nonce := int 0\<rparr>)) =
        Some (b\<lparr>nonce := int m\<rparr>, compute_hash (b\<lparr>nonce := int m\<rparr>))"
    by (rule pow_loop_finds) (use gm least in \<open>auto simp: good_def\<close>)
  then have run: "proof_of_work b =
      Some (b\<lparr>nonce := int m\<rparr>, compute_hash (b\<lparr>nonce := int m\<rparr>))"
    by (simp add: proof_of_work_def)
  have zeros: "leading_zeros difficulty (compute_hash (b\<lparr>nonce := int m\<rparr>))"
    using gm by (simp add: good_def startswith_zeros_iff)
  have before: "\<not> leading_zeros difficulty (compute_hash (b\<lparr>nonce := k\<rparr>))"
    if "0 \<le> k" and "k < int m" for k
  proof -
    from that have "nat k < m" and "int (nat k) = k" by simp_all
    with least [of "nat k"] show ?thesis
      by (simp add: good_def startswith_zeros_iff)
  qed
  have valid: "is_valid_proof (b\<lparr>nonce := int m\<rparr>) (compute_hash (b\<lparr>nonce := int m\<rparr>))"
    using gm by (simp add: is_valid_proof_def good_def)
  from run zeros before valid show ?thesis
    by (intro exI [of _ "int m"]) simp
qed

lemma nonce_update_same: "b\<lparr>nonce := nonce b\<rparr> = b"
  by (cases b) simp

lemma pow_loop_shape:
  assumes "pow_loop b c = Some r"
  shows "(\<exists>m. fst r = b\<lparr>nonce := m\<rparr>)
         \<and> (c = compute_hash b \<longrightarrow> snd r = compute_hash (fst r))
         \<and> startswith (snd r) (replicate difficulty CHR ''0'')"
  using assms
proof (rule pow_loop.raw_induct [rotated])
  fix loop :: "Block \<Rightarrow> string \<Rightarrow> (Block \<times> string) option"
    and block computed_hash res
  assume IH: "\<And>b' c' y. loop b' c' = Some y \<Longrightarrow>
      (\<exists>m. fst y = b'\<lparr>nonce := m\<rparr>)
      \<and> (c' = compute_hash b' \<longrightarrow> snd y = compute_hash (fst y))
      \<and> startswith (snd y) (replicate difficulty CHR ''0'')"
    and body: "(if startswith computed_hash (replicate difficulty CHR ''0'')
       then Some (block, computed_hash)
       else loop (block\<lparr>nonce := nonce block + 1\<rparr>)
              (compute_hash (block\<lparr>nonce := nonce block + 1\<rparr>))) = Some res"
  show "(\<exists>m. fst res = block\<lparr>nonce := m\<rparr>)
        \<and> (computed_hash = compute_hash block \<longrightarrow> snd res = compute_hash (fst res))
        \<and> startswith (snd res) (replicate difficulty CHR ''0'')"
  proof (cases "startswith computed_hash (replicate difficulty CHR ''0'')")
    case True
    with body have "res = (block, computed_hash)" by simp
    with True show ?thesis
      by (auto intro: exI [of _ "nonce block"] simp: nonce_update_same)
  next
    case False
    with body have "loop (block\<lparr>nonce := nonce block + 1\<rparr>)
        (compute_hash (block\<lparr>nonce := nonce block + 1\<rparr>)) = Some res"
      by simp
    from IH [OF this] show ?thesis
      by auto
  qed
qed

lemma proof_of_work_valid:
  assumes "proof_of_work b = Some (b', p)"
  shows "(\<exists>m. b' = b\<lparr>nonce := m\<rparr>) \<and> is_valid_proof b' p"
proof -
  from assms have run:
    "pow_loop (b\<lparr>nonce := 0\<rparr>) (compute_hash (b\<lparr>nonce := 0\<rparr>)) = Some (b', p)"
    by (simp add: proof_of_work_def)
  from pow_loop_shape [OF run] show ?thesis
    by (auto simp: is_valid_proof_def)
qed

lemma pow_loop_nonce:
  assumes "pow_loop b c = Some r"
  shows "nonce b \<le> nonce (fst r)"
  using assms
proof (rule pow_loop.raw_induct [rotated])
  fix loop :: "Block \<Rightarrow> string \<Rightarrow> (Block \<times> string) option"
    and block computed_hash res
  assume IH: "\<And>b' c' y. loop b' c' = Some y \<Longrightarrow> nonce b' \<le> nonce (fst y)"
    and body: "(if startswith computed_hash (replicate difficulty CHR ''0'')
       then Some (block, computed_hash)
       else loop (block\<lparr>nonce := nonce block + 1\<rparr>)
              (compute_hash (block\<lparr>nonce := nonce block + 1\<rparr>))) = Some res"
  show "nonce block \<le> nonce (fst res)"
  proof (cases "startswith computed_hash (replicate difficulty CHR ''0'')")
    case True
    with body show ?thesis by auto
  next
    case False
    with body have "loop (block\<lparr>nonce := nonce block + 1\<rparr>)
        (compute_hash (block\<lparr>nonce := nonce block + 1\<rparr>)) = Some res"
      by simp
    from IH [OF this] show ?thesis by simp
  qed
qed

lemma proof_of_work_unbounded:
  assumes "\<not> (\<exists>n. 0 \<le> n \<and> leading_zeros difficulty (compute_hash (b\<lparr>nonce := n\<rparr>)))"
  shows "proof_of_work b = None"
proof (rule ccontr)
  assume "proof_of_work b \<noteq> None"
  then obtain b' p where run: "proof_of_work b = Some (b', p)"
    by auto
  then have loop: "pow_loop (b\<lparr>nonce := 0\<rparr>) (compute_hash (b\<lparr>nonce := 0\<rparr>)) = Some (b', p)"
    by (simp add: proof_of_work_def)
  from pow_loop_nonce [OF loop] have pos: "0 \<le> nonce b'"
    by simp
  from proof_of_work_valid [OF run] obtain m where b': "b' = b\<lparr>nonce := m\<rparr>"
    and valid: "is_valid_proof b' p"
    by blast
  from valid have "leading_zeros difficulty (compute_hash b')"
    by (auto simp: is_valid_proof_def startswith_zeros_iff)
  with b' pos have "0 \<le> m \<and> leading_zeros difficulty (compute_hash (b\<lparr>nonce := m\<rparr>))"
    by simp
  with assms show False by blast
qed

subsection \<open>\<open>mine\<close>\<close>

lemma mine_unbounded:
  assumes "last_block l = Inr lb" and "hash lb = Some h"
    and "unconfirmed_transactions l \<noteq> []"
    and "\<not> (\<exists>n. 0 \<le> n \<and> leading_zeros difficulty
            (compute_hash ((Block_init (index lb + 1) (unconfirmed_transactions l) now h 0)
               \<lparr>nonce := n\<rparr>)))"
  shows "mine l now = None"
  using assms(1-3) proof_of_work_unbounded [OF assms(4)]
  by (simp add: mine_def getattr_hash_def)


lemma mine_admit_clears:
  "mine_admit l b p = Inr (l', r) \<Longrightarrow> unconfirmed_transactions l' = [] \<and> r"
  by (auto simp: mine_admit_def split: sum.splits prod.splits)

lemma mine_accepts:
  assumes head: "last_block l = Inr lb" "hash lb = Some h"
    and pool: "unconfirmed_transactions l \<noteq> []"
    and run: "proof_of_work (Block_init (index lb + 1) (unconfirmed_transactions l) now h 0)
                = Some (b, p)"
  shows "index b = index lb + 1" and "previous_hash b = h"
    and "transactions b = unconfirmed_transactions l" and "hash b = None"
    and "add_block l b p = Inr (l\<lparr>chain := chain l @ [b\<lparr>hash := Some p\<rparr>]\<rparr>, True)"
    and "mine l now =
           Some (Inr (\<lparr>unconfirmed_transactions = [],
                       chain = chain l @ [b\<lparr>hash := Some p\<rparr>]\<rparr>, True))"
proof -
  from proof_of_work_valid [OF run] obtain m where
    b: "b = (Block_init (index lb + 1) (unconfirmed_transactions l) now h 0)\<lparr>nonce := m\<rparr>"
    and valid: "is_valid_proof b p"
    by blast
  from b show "index b = index lb + 1" and prev: "previous_hash b = h"
    and "transactions b = unconfirmed_transactions l" and "hash b = None"
    by (simp_all add: Block_init_def)
  from head prev valid
  show acc: "add_block l b p = Inr (l\<lparr>chain := chain l @ [b\<lparr>hash := Some p\<rparr>]\<rparr>, True)"
    by (rule add_block_accepts)
  from head pool run acc
  show "mine l now =
          Some (Inr (\<lparr>unconfirmed_transactions = [],
                      chain = chain l @ [b\<lparr>hash := Some p\<rparr>]\<rparr>, True))"
    by (simp add: mine_def getattr_hash_def mine_admit_def)
qed

subsection \<open>The invariant of reachable ledgers\<close>

lemma ledger_inv_head:
  assumes "ledger_inv l"
  shows "\<exists>lb h. last_block l = Inr lb \<and> hash lb = Some h"
proof -
  from assms have ne: "chain l \<noteq> []" and all: "list_all sealed_ok (chain l)"
    by (simp_all add: ledger_inv_def)
  from ne have "last (chain l) \<in> set (chain l)" by simp
  with all have "sealed_ok (last (chain l))"
    by (simp add: list_all_iff)
  with ne show ?thesis
    by (simp add: last_block_def sealed_ok_def)
qed

lemma ledger_inv_append:
  assumes inv: "ledger_inv l" and blk: "hash b = None" and valid: "is_valid_proof b p"
  shows "ledger_inv (l\<lparr>chain := chain l @ [b\<lparr>hash := Some p\<rparr>]\<rparr>)"
proof -
  from valid have p: "p = compute_hash b"
    by (simp add: is_valid_proof_def)
  from valid have z: "leading_zeros difficulty p"
    unfolding is_valid_proof_def startswith_zeros_iff by (rule conjunct1)
  from blk p have "sealed_ok (b\<lparr>hash := Some p\<rparr>)"
    by (simp add: sealed_ok_def sealed_content_digest)
  moreover from z have "proved_ok (b\<lparr>hash := Some p\<rparr>)"
    by (simp add: proved_ok_def)
  moreover from inv have "chain l \<noteq> []"
    by (simp add: ledger_inv_def)
  ultimately show ?thesis
    using inv by (simp add: ledger_inv_def)
qed

lemma ledger_inv_pool: "ledger_inv (l\<lparr>unconfirmed_transactions := q\<rparr>) = ledger_inv l"
  by (simp add: ledger_inv_def)

lemma ledger_inv_add_block:
  assumes "ledger_inv l" and "hash b = None" and "add_block l b p = Inr (l', r)"
  shows "ledger_inv l'"
  using add_block_cases [OF assms(3)] assms(1,2)
  by (auto intro: ledger_inv_append)

lemma ledger_inv_genesis: "ledger_inv genesis_ledger"
  by (simp add: ledger_inv_def genesis_ledger_def create_genesis_block_def Blockchain_init_def
      Block_init_def sealed_ok_def content_digest_def Let_def)

lemma ledger_inv_mine:
  assumes inv: "ledger_inv l" and run: "mine l now = Some (Inr (l', r))"
  shows "ledger_inv l'"
proof (cases "unconfirmed_transactions l = []")
  case True
  with run show ?thesis using inv by (simp add: mine_def)
next
  case False
  from ledger_inv_head [OF inv] obtain lb h where
    head: "last_block l = Inr lb" "hash lb = Some h"
    by blast
  let ?cand = "Block_init (index lb + 1) (unconfirmed_transactions l) now h 0"
  from run False head obtain b p where pw: "proof_of_work ?cand = Some (b, p)"
    by (auto simp: mine_def getattr_hash_def split: option.splits)
  from mine_accepts(6) [OF head False pw] run
  have l': "l' = \<lparr>unconfirmed_transactions = [], chain = chain l @ [b\<lparr>hash := Some p\<rparr>]\<rparr>"
    by simp
  from proof_of_work_valid [OF pw] have valid: "is_valid_proof b p"
    by blast
  from mine_accepts(4) [OF head False pw] have "hash b = None" .
  from ledger_inv_append [OF inv this valid]
  show ?thesis
    unfolding l' by (simp add: ledger_inv_def)
qed

lemma reachable_inv: "reachable l \<Longrightarrow> ledger_inv l"
proof (induction rule: reachable.induct)
  case reachable_init
  show ?case by (rule ledger_inv_genesis)
next
  case (reachable_queue l tx)
  then show ?case by (simp add: add_new_transaction_def ledger_inv_pool)
next
  case (reachable_mine l now l' r)
  then show ?case by (blast intro: ledger_inv_mine)
next
  case (reachable_admit l d l' r)
  from reachable_admit.hyps(2)
  have "add_block l (block_of_data d) (bd_hash d) = Inr (l', r)"
    by (simp add: verify_and_add_block_def)
  moreover have "hash (block_of_data d) = None"
    by (simp add: block_of_data_def Block_init_def)
  ultimately show ?case
    using reachable_admit.IH by (blast intro: ledger_inv_add_block)
qed

lemma ledger_inv_nth:
  assumes "ledger_inv l" and "i < length (chain l)"
  shows "hash (chain l ! i) = Some (content_digest (chain l ! i))"
    and "0 < i \<Longrightarrow> leading_zeros difficulty (content_digest (chain l ! i))"
proof -
  from assms have "sealed_ok (chain l ! i)"
    by (simp add: ledger_inv_def list_all_length)
  then show seal: "hash (chain l ! i) = Some (content_digest (chain l ! i))"
    by (simp add: sealed_ok_def)
  assume pos: "0 < i"
  then obtain j where i: "i = Suc j" by (cases i) auto
  with assms have "j < length (tl (chain l))" by simp
  with assms have "proved_ok (tl (chain l) ! j)"
    by (simp add: ledger_inv_def list_all_length)
  moreover from assms i have "tl (chain l) ! j = chain l ! i"
    by (simp add: nth_tl)
  ultimately show "leading_zeros difficulty (content_digest (chain l ! i))"
    using seal by (simp add: proved_ok_def)
qed

subsection \<open>Replaying a dump\<close>

lemma create_chain_loop_append:
  "0 < idx \<Longrightarrow>
     create_chain_loop g idx (xs @ ys) =
       (case create_chain_loop g idx xs of
          Inl e \<Rightarrow> Inl e
        | Inr g' \<Rightarrow> create_chain_loop g' (idx + length xs) ys)"
proof (induction xs arbitrary: g idx)
  case Nil
  show ?case by simp
next
  case (Cons d xs)
  then show ?case
    by (auto split: sum.splits prod.splits)
qed

lemma check_chain_validity_raises:
  "check_chain_validity (item # rest) = Inl AttributeError"
proof (cases item)
  case (BlockObj b)
  then show ?thesis
    by (cases "hash b")
       (simp_all add: check_chain_validity_def getattr_hash_def Blockchain_getattr_def)
next
  case (BlockDict d)
  then show ?thesis
    by (simp add: check_chain_validity_def)
qed

section \<open>The sample data, computed\<close>

lemmas text_eval = compute_hash_def block_dict_def Block_init_def block_of_data_def
  str_int_def str_nat.simps hexdigit_def encode_str_def escape_char_def

lemma compute_hash_genesis: "compute_hash (Block_init 0 [] (JInt 0) ''0'' 0) = genesis_digest"
  by (simp add: text_eval sha256_genesis genesis_digest_def)

lemma genesis_ledger_eval:
  "genesis_ledger = \<lparr>unconfirmed_transactions = [], chain = [genesis_sealed]\<rparr>"
  by (simp add: genesis_ledger_def create_genesis_block_def Blockchain_init_def Let_def
      compute_hash_genesis genesis_sealed_def)

lemma content_digest_genesis: "content_digest genesis_sealed = genesis_digest"
  using compute_hash_genesis
  by (simp add: content_digest_def genesis_sealed_def Block_init_def)

lemma compute_hash_candidate_0:
  "compute_hash (sample_candidate\<lparr>nonce := 0\<rparr>) =
     ''cdd6224d2366787963bf9fbcdc7cb5fd554f824dbed5d110833bf7083bade690''"
  by (simp add: text_eval sample_candidate_def sample_tx_def sample_now_def genesis_digest_def
      sha256_candidate_0)

lemma compute_hash_candidate_1: "compute_hash (sample_candidate\<lparr>nonce := 1\<rparr>) = sample_proof"
  by (simp add: text_eval sample_candidate_def sample_tx_def sample_now_def genesis_digest_def
      sha256_candidate_1 sample_proof_def)

lemma compute_hash_sample_sealed:
  "compute_hash sample_sealed =
     ''40b0b273b8dbbf2eb3d382a42af88abe40293afad5c67868d70d252a41b4b395''"
  by (simp add: text_eval sample_sealed_def sample_candidate_def sample_tx_def sample_now_def
      genesis_digest_def sample_proof_def sha256_sample_sealed)

lemma compute_hash_tampered:
  "compute_hash (block_of_data tampered_data) =
     ''c51f7317de7c4a5c2cbbef05a6931e850c9073a4a51b5ba8402b16e59e23ef1b''"
  by (simp add: text_eval tampered_data_def sample_data_def sample_now_def genesis_digest_def
      sha256_tampered)

lemma genesis_digest_no_zeros: "\<not> leading_zeros difficulty genesis_digest"
  by (simp add: leading_zeros_def difficulty_def genesis_digest_def numeral_2_eq_2)

lemma sample_proof_zeros: "leading_zeros difficulty sample_proof"
  by (simp add: leading_zeros_def difficulty_def sample_proof_def numeral_2_eq_2)

lemma candidate_0_no_zeros:
  "\<not> leading_zeros difficulty (compute_hash (sample_candidate\<lparr>nonce := 0\<rparr>))"
  by (simp add: compute_hash_candidate_0 leading_zeros_def difficulty_def numeral_2_eq_2)

lemma block_of_sample_data: "block_of_data sample_data = sample_candidate\<lparr>nonce := 1\<rparr>"
  by (simp add: block_of_data_def sample_data_def sample_candidate_def Block_init_def)

lemma sample_valid_proof: "is_valid_proof (sample_candidate\<lparr>nonce := 1\<rparr>) sample_proof"
  using sample_proof_zeros
  by (simp add: is_valid_proof_def startswith_zeros_iff compute_hash_candidate_1)

lemma genesis_head:
  "last_block genesis_ledger = Inr genesis_sealed" "hash genesis_sealed = Some genesis_digest"
  by (simp_all add: genesis_ledger_eval last_block_def genesis_sealed_def)

lemma add_block_sample:
  "add_block genesis_ledger (sample_candidate\<lparr>nonce := 1\<rparr>) sample_proof =
     Inr (sample_mined, True)"
proof -
  have "previous_hash (sample_candidate\<lparr>nonce := 1\<rparr>) = genesis_digest"
    by (simp add: sample_candidate_def Block_init_def)
  from add_block_accepts [OF genesis_head this sample_valid_proof]
  show ?thesis
    by (simp add: genesis_ledger_eval sample_mined_def sample_sealed_def)
qed

lemma proof_of_work_sample:
  "proof_of_work sample_candidate = Some (sample_candidate\<lparr>nonce := 1\<rparr>, sample_proof)"
proof -
  have hit: "startswith (compute_hash (sample_candidate\<lparr>nonce := int 1\<rparr>))
      (replicate difficulty CHR ''0'')"
    using sample_proof_zeros by (simp add: startswith_zeros_iff compute_hash_candidate_1)
  have miss: "\<forall>k. 0 \<le> k \<and> k < 1 \<longrightarrow>
      \<not> startswith (compute_hash (sample_candidate\<lparr>nonce := int k\<rparr>))
            (replicate difficulty CHR ''0'')"
    using candidate_0_no_zeros by (simp add: startswith_zeros_iff)
  from pow_loop_finds [OF hit miss] show ?thesis
    by (simp add: proof_of_work_def compute_hash_candidate_1)
qed

lemma sample_pending_eval:
  "sample_pending = \<lparr>unconfirmed_transactions = [sample_tx], chain = [genesis_sealed]\<rparr>"
  by (simp add: sample_pending_def add_new_transaction_def genesis_ledger_eval)

lemma mine_sample: "mine sample_pending sample_now = Some (Inr (sample_mined, True))"
proof -
  have head: "last_block sample_pending = Inr genesis_sealed"
    "hash genesis_sealed = Some genesis_digest"
    by (simp_all add: sample_pending_eval last_block_def genesis_sealed_def)
  have pool: "unconfirmed_transactions sample_pending \<noteq> []"
    by (simp add: sample_pending_eval)
  have cand: "Block_init (index genesis_sealed + 1) (unconfirmed_transactions sample_pending)
      sample_now genesis_digest 0 = sample_candidate"
    by (simp add: sample_candidate_def sample_pending_eval genesis_sealed_def Block_init_def)
  have run: "proof_of_work (Block_init (index genesis_sealed + 1)
      (unconfirmed_transactions sample_pending) sample_now genesis_digest 0)
      = Some (sample_candidate\<lparr>nonce := 1\<rparr>, sample_proof)"
    unfolding cand by (rule proof_of_work_sample)
  from mine_accepts(6) [OF head pool run] show ?thesis
    by (simp add: sample_pending_eval sample_mined_def sample_sealed_def)
qed

lemma reachable_sample_mined: "reachable sample_mined"
proof -
  have "reachable sample_pending"
    unfolding sample_pending_def by (rule reachable_queue [OF reachable_init])
  then show ?thesis
    using mine_sample by (rule reachable_mine)
qed

lemma bd_hash_sample: "bd_hash sample_data = sample_proof" "bd_hash tampered_data = sample_proof"
  by (simp_all add: sample_data_def tampered_data_def)

lemma create_chain_from_sample_dump: "create_chain_from_dump sample_dump = Inr sample_mined"
  by (simp add: create_chain_from_dump_def sample_dump_def genesis_ledger_def [symmetric]
      block_of_sample_data bd_hash_sample add_block_sample)

lemma tampered_rejected:
  "add_block genesis_ledger (block_of_data tampered_data) (bd_hash tampered_data) =
     Inr (genesis_ledger, False)"
proof -
  have "\<not> is_valid_proof (block_of_data tampered_data) (bd_hash tampered_data)"
    by (simp add: is_valid_proof_def compute_hash_tampered bd_hash_sample sample_proof_def)
  moreover have "previous_hash (block_of_data tampered_data) = genesis_digest"
    by (simp add: block_of_data_def tampered_data_def sample_data_def Block_init_def)
  ultimately show ?thesis
    using genesis_head
    by (simp add: add_block_def getattr_hash_def)
qed

lemma consensus_loop_empty:
  assumes "longest = None \<or> longest = Some []"
    and "consensus_loop peers current_len longest = Inr r"
  shows "r = None \<or> r = Some []"
  using assms
proof (induction peers arbitrary: current_len longest)
  case Nil
  then show ?case by auto
next
  case (Cons peer peers)
  obtain len chn where peer: "peer = (len, chn)" by (cases peer)
  show ?case
  proof (cases "len > current_len")
    case False
    with Cons.prems peer have "consensus_loop peers current_len longest = Inr r" by simp
    with Cons.IH Cons.prems(1) show ?thesis by blast
  next
    case True
    show ?thesis
    proof (cases chn)
      case Nil
      with True Cons.prems peer have "consensus_loop peers len (Some []) = Inr r"
        by (simp add: check_chain_validity_def)
      with Cons.IH show ?thesis by blast
    next
      case (Cons d ds)
      with True Cons.prems(2) peer show ?thesis
        by (simp add: check_chain_validity_raises)
    qed
  qed
qed

lemma consensus_never_replaces: "consensus l peers \<noteq> Inr (g, True)"
proof
  assume run: "consensus l peers = Inr (g, True)"
  then obtain r where loop: "consensus_loop peers (int (length (chain l))) None = Inr r"
    by (auto simp: consensus_def split: sum.splits)
  from consensus_loop_empty [OF _ loop] have "r = None \<or> r = Some []" by simp
  with run loop show False
    by (auto simp: consensus_def)
qed

section \<open>The claims\<close>

text \<open>
  C1. The claim: when the admission inside \<open>mine\<close> fails the pool is left as it was, and
  the pool is never cleared whatever the admission returned. The source does not look at
  what \<open>add_block\<close> returns. On the ledger whose head moved during the search, the
  admission of the candidate is refused for its linkage, and the tail of \<open>mine\<close> still
  empties the pool, with the transaction that was queued meanwhile, and returns
  \<open>True\<close>.
\<close>

theorem mine_clears_pool_on_rejection:
  "add_block moved_ledger (sample_candidate\<lparr>nonce := 1\<rparr>) sample_proof
     = Inr (moved_ledger, False)
   \<and> mine_admit moved_ledger (sample_candidate\<lparr>nonce := 1\<rparr>) sample_proof
     = Inr (moved_ledger\<lparr>unconfirmed_transactions := []\<rparr>, True)
   \<and> length (unconfirmed_transactions moved_ledger) = 2"
  by (simp add: mine_admit_def add_block_def last_block_def getattr_hash_def moved_ledger_def
      peer_sealed_def sample_candidate_def Block_init_def genesis_digest_def)

text \<open>
  C2. The claim: \<open>check_chain_validity\<close> returns a boolean for every chain and never
  raises. In the source the loop body calls \<open>cls.is_valid\<close>, a name the class does not
  define, on \<open>block.hash\<close>, the attribute it has just deleted. On the chain of a fresh
  ledger, which holds the genesis block only, the call raises \<open>AttributeError\<close>.
\<close>

theorem check_chain_validity_raises_on_genesis:
  "check_chain_validity (map BlockObj (chain genesis_ledger)) = Inl AttributeError"
  by (simp add: genesis_ledger_eval check_chain_validity_raises)

text \<open>
  C3. The claim: when a peer's snapshot is longer than the local chain and rebuilds into a
  valid ledger, \<open>consensus\<close> replaces the local ledger by it and reports the replacement.
  The sample dump has two blocks and \<open>create_chain_from_dump\<close> rebuilds it; the local
  ledger has one block. \<open>consensus\<close> hands the decoded dictionaries to
  \<open>check_chain_validity\<close>, which reads an attribute from a dictionary, and raises
  \<open>AttributeError\<close>.
\<close>

theorem consensus_raises_on_longer_valid_chain:
  "create_chain_from_dump sample_dump = Inr sample_mined
   \<and> length (chain sample_mined) = 2
   \<and> length (chain genesis_ledger) = 1
   \<and> consensus genesis_ledger [(2, sample_dump)] = Inl AttributeError"
proof -
  have "length (chain sample_mined) = 2"
    by (simp add: sample_mined_def)
  moreover have "length (chain genesis_ledger) = 1"
    by (simp add: genesis_ledger_eval)
  moreover have "consensus genesis_ledger [(2, sample_dump)] = Inl AttributeError"
    by (simp add: consensus_def genesis_ledger_eval sample_dump_def check_chain_validity_def)
  ultimately show ?thesis
    using create_chain_from_sample_dump by blast
qed

text \<open>
  C4, as the claim states it: on a dump with a block whose admission fails,
  \<open>create_chain_from_dump\<close> returns an outcome to its caller and does not raise. It
  fails on the dump whose transaction content was changed after sealing: the call raises
  \<open>Exception\<close>.
\<close>

theorem create_chain_from_dump_raises:
  "create_chain_from_dump tampered_dump = Inl (Exception ''The chain dump is tampered!!'')"
  by (simp add: create_chain_from_dump_def tampered_dump_def genesis_ledger_def [symmetric]
      tampered_rejected)

text \<open>
  C4, amended: when the blocks of a dump before some non-genesis block \<open>d\<close> replay onto
  the genesis ledger and the admission of \<open>d\<close> is refused, \<open>create_chain_from_dump\<close>
  stops there and raises \<open>Exception('The chain dump is tampered!!')\<close>; no ledger is
  returned, so the assignment in the caller does not happen and the node's ledger stays
  as it was.
\<close>

theorem create_chain_from_dump_aborts:
  assumes "create_chain_loop genesis_ledger 1 pre = Inr g"
    and "add_block g (block_of_data d) (bd_hash d) = Inr (g', False)"
  shows "create_chain_from_dump (d0 # pre @ d # post)
           = Inl (Exception ''The chain dump is tampered!!'')
         \<and> sync_from_dump blockchain (d0 # pre @ d # post)
           = (blockchain, Some (Exception ''The chain dump is tampered!!''))"
proof -
  have "create_chain_loop genesis_ledger 1 (pre @ d # post)
          = Inl (Exception ''The chain dump is tampered!!'')"
    using assms by (simp add: create_chain_loop_append)
  then have "create_chain_from_dump (d0 # pre @ d # post)
          = Inl (Exception ''The chain dump is tampered!!'')"
    by (simp add: create_chain_from_dump_def genesis_ledger_def)
  then show ?thesis
    by (simp add: sync_from_dump_def)
qed

theorem create_chain_from_dump_aborts_witness:
  "create_chain_loop genesis_ledger 1 [] = Inr genesis_ledger
   \<and> add_block genesis_ledger (block_of_data tampered_data) (bd_hash tampered_data)
       = Inr (genesis_ledger, False)
   \<and> sync_from_dump sample_mined tampered_dump
       = (sample_mined, Some (Exception ''The chain dump is tampered!!''))"
proof -
  have pre: "create_chain_loop genesis_ledger 1 [] = Inr genesis_ledger"
    by simp
  from create_chain_from_dump_aborts [OF pre tampered_rejected,
      of genesis_data "[]" sample_mined]
  show ?thesis
    using tampered_rejected by (simp add: tampered_dump_def)
qed



text \<open>
  C6, as the claim states it: in every reachable ledger the hash of every block, the
  genesis block included, has the leading zeros. It fails at index 0 of the fresh ledger:
  the genesis block is sealed with the digest of its content at nonce 0, without a search,
  and that digest starts with \<open>6d\<close>.
\<close>

theorem genesis_hash_lacks_zeros:
  "reachable genesis_ledger
   \<and> hash (chain genesis_ledger ! 0) = Some genesis_digest
   \<and> content_digest (chain genesis_ledger ! 0) = genesis_digest
   \<and> \<not> leading_zeros difficulty genesis_digest"
  using reachable_init genesis_digest_no_zeros content_digest_genesis
  by (simp add: genesis_ledger_eval genesis_sealed_def)

text \<open>
  C6, amended: in every ledger reachable from the fresh ledger by queueing transactions,
  mining and admitting announced blocks, the hash of every block equals the digest of its
  content recomputed without the \<open>hash\<close> attribute, and the hash of every block after
  the genesis block has at least \<open>difficulty\<close> leading zeros.
\<close>

theorem reachable_chain_sealed:
  assumes "reachable l" and "i < length (chain l)"
  shows "hash (chain l ! i) = Some (content_digest (chain l ! i))
         \<and> (0 < i \<longrightarrow> leading_zeros difficulty (content_digest (chain l ! i)))"
  using ledger_inv_nth [OF reachable_inv [OF assms(1)] assms(2)] by blast

theorem reachable_chain_sealed_witness:
  "reachable sample_mined \<and> (1::nat) < length (chain sample_mined)
   \<and> hash (chain sample_mined ! 1) = Some (content_digest (chain sample_mined ! 1))
   \<and> leading_zeros difficulty (content_digest (chain sample_mined ! 1))"
proof -
  have len: "(1::nat) < length (chain sample_mined)"
    by (simp add: sample_mined_def)
  from reachable_chain_sealed [OF reachable_sample_mined len]
  show ?thesis
    using reachable_sample_mined len by simp
qed

text \<open>
  C7, as the claim states it: a candidate whose \<open>previous_hash\<close> differs from the hash
  of the head is answered with the LinkageMismatch rejection, an answer that names the
  reason. It fails on the fresh ledger: the candidate with a wrong link and the block of
  the tampered dump, whose link is right and whose proof is invalid, get the same answer,
  the bare \<open>False\<close> with the ledger unchanged.
\<close>

theorem add_block_refusals_coincide:
  "add_block genesis_ledger (sample_candidate\<lparr>nonce := 1, previous_hash := ''0''\<rparr>)
       sample_proof
     = Inr (genesis_ledger, False)
   \<and> previous_hash (block_of_data tampered_data) = genesis_digest
   \<and> add_block genesis_ledger (block_of_data tampered_data) (bd_hash tampered_data)
     = Inr (genesis_ledger, False)"
proof -
  have "previous_hash (sample_candidate\<lparr>nonce := 1, previous_hash := ''0''\<rparr>)
      \<noteq> genesis_digest"
    by (simp add: genesis_digest_def)
  from add_block_linkage [OF genesis_head this]
  have "add_block genesis_ledger (sample_candidate\<lparr>nonce := 1, previous_hash := ''0''\<rparr>)
      sample_proof = Inr (genesis_ledger, False)" .
  moreover have "previous_hash (block_of_data tampered_data) = genesis_digest"
    by (simp add: block_of_data_def tampered_data_def sample_data_def Block_init_def)
  ultimately show ?thesis
    using tampered_rejected by simp
qed

text \<open>
  C7, amended: when the candidate's \<open>previous_hash\<close> differs from the hash of the
  current head, \<open>add_block\<close> refuses it at the linkage check by returning \<open>False\<close>,
  the value it returns for every refusal, whatever digest comes with the candidate, also
  one that passes the difficulty and recomputation checks; the ledger it leaves, chain
  and pool, is the ledger it was given.
\<close>

theorem add_block_linkage_mismatch:
  assumes "last_block l = Inr lb" and "hash lb = Some h" and "previous_hash b \<noteq> h"
  shows "add_block l b p = Inr (l, False)"
  using assms by (rule add_block_linkage)

theorem add_block_linkage_mismatch_witness:
  "is_valid_proof (sample_candidate\<lparr>nonce := 1\<rparr>) sample_proof
   \<and> add_block moved_ledger (sample_candidate\<lparr>nonce := 1\<rparr>) sample_proof
       = Inr (moved_ledger, False)"
proof -
  have head: "last_block moved_ledger = Inr peer_sealed"
    by (simp add: last_block_def moved_ledger_def)
  have h: "hash peer_sealed =
      Some ''00fbab512fb8fa881d2e7bbabeea9ced09f30fcee50a90f08a9b194049785c13''"
    by (simp add: peer_sealed_def)
  have link: "previous_hash (sample_candidate\<lparr>nonce := 1\<rparr>) \<noteq>
      ''00fbab512fb8fa881d2e7bbabeea9ced09f30fcee50a90f08a9b194049785c13''"
    by (simp add: sample_candidate_def Block_init_def genesis_digest_def)
  from add_block_linkage_mismatch [OF head h link] sample_valid_proof
  show ?thesis by simp
qed

text \<open>
  C8, as the claim states it: for every block, \<open>is_valid_proof\<close> holds exactly when the
  digest has the leading zeros and equals the content digest recomputed without the
  \<open>hash\<close> attribute. It fails on the sealed sample block with its own hash: the digest
  has the zeros and is the content digest, and \<open>is_valid_proof\<close> is false, because the
  block is hashed with the \<open>hash\<close> attribute it carries.
\<close>

theorem is_valid_proof_rejects_sealed_block:
  "leading_zeros difficulty sample_proof
   \<and> sample_proof = content_digest sample_sealed
   \<and> \<not> is_valid_proof sample_sealed sample_proof"
proof -
  have "sample_sealed\<lparr>hash := None\<rparr> = sample_candidate\<lparr>nonce := 1\<rparr>"
    by (simp add: sample_sealed_def sample_candidate_def Block_init_def)
  then have "content_digest sample_sealed = sample_proof"
    by (simp add: content_digest_def compute_hash_candidate_1)
  moreover have "\<not> is_valid_proof sample_sealed sample_proof"
    by (simp add: is_valid_proof_def compute_hash_sample_sealed sample_proof_def)
  ultimately show ?thesis
    using sample_proof_zeros by simp
qed

text \<open>
  C8, amended: for every block that has no \<open>hash\<close> attribute, which is how every caller
  in the source builds the block it passes, and for every digest, \<open>is_valid_proof\<close>
  holds exactly when the digest has at least \<open>difficulty\<close> leading zeros and equals the
  recomputed content digest of the block.
\<close>

theorem is_valid_proof_unsealed:
  assumes "hash b = None"
  shows "is_valid_proof b d \<longleftrightarrow> leading_zeros difficulty d \<and> d = content_digest b"
  using assms
  by (simp add: is_valid_proof_def startswith_zeros_iff unsealed_content_digest)

theorem is_valid_proof_unsealed_witness:
  "hash (sample_candidate\<lparr>nonce := 1\<rparr>) = None
   \<and> is_valid_proof (sample_candidate\<lparr>nonce := 1\<rparr>) sample_proof
   \<and> \<not> is_valid_proof (sample_candidate\<lparr>nonce := 1\<rparr>) genesis_digest"
proof -
  have unsealed: "hash (sample_candidate\<lparr>nonce := 1\<rparr>) = None"
    by (simp add: sample_candidate_def Block_init_def)
  have digest: "content_digest (sample_candidate\<lparr>nonce := 1\<rparr>) = sample_proof"
    by (simp add: unsealed_content_digest unsealed compute_hash_candidate_1)
  from is_valid_proof_unsealed [OF unsealed, of sample_proof]
    is_valid_proof_unsealed [OF unsealed, of genesis_digest]
  show ?thesis
    using unsealed digest sample_proof_zeros genesis_digest_no_zeros by simp
qed

text \<open>
  C9: for every candidate block for which some nonce \<open>n \<ge> 0\<close> gives a digest with at
  least \<open>difficulty\<close> leading zeros, \<open>proof_of_work\<close> returns; the block it leaves
  differs from the candidate in its nonce only, the nonce is the least such number, the
  digest returned is \<open>compute_hash\<close> of the block in that state, and the pair passes
  \<open>is_valid_proof\<close>.
\<close>

theorem proof_of_work_finds_least_nonce:
  assumes "\<exists>n. 0 \<le> n \<and> leading_zeros difficulty (compute_hash (b\<lparr>nonce := n\<rparr>))"
  shows "\<exists>m. proof_of_work b = Some (b\<lparr>nonce := m\<rparr>, compute_hash (b\<lparr>nonce := m\<rparr>))
           \<and> 0 \<le> m
           \<and> leading_zeros difficulty (compute_hash (b\<lparr>nonce := m\<rparr>))
           \<and> (\<forall>k. 0 \<le> k \<and> k < m \<longrightarrow>
                 \<not> leading_zeros difficulty (compute_hash (b\<lparr>nonce := k\<rparr>)))
           \<and> is_valid_proof (b\<lparr>nonce := m\<rparr>) (compute_hash (b\<lparr>nonce := m\<rparr>))"
  using assms by (rule proof_of_work_least)

theorem proof_of_work_finds_least_nonce_witness:
  "leading_zeros difficulty (compute_hash (sample_candidate\<lparr>nonce := 1\<rparr>))
   \<and> \<not> leading_zeros difficulty (compute_hash (sample_candidate\<lparr>nonce := 0\<rparr>))
   \<and> proof_of_work sample_candidate = Some (sample_candidate\<lparr>nonce := 1\<rparr>, sample_proof)
   \<and> is_valid_proof (sample_candidate\<lparr>nonce := 1\<rparr>) sample_proof"
proof -
  have hit: "leading_zeros difficulty (compute_hash (sample_candidate\<lparr>nonce := 1\<rparr>))"
    using sample_proof_zeros by (simp add: compute_hash_candidate_1)
  then have ex: "\<exists>n. 0 \<le> n \<and>
      leading_zeros difficulty (compute_hash (sample_candidate\<lparr>nonce := n\<rparr>))"
    by (intro exI [of _ 1]) simp
  from proof_of_work_finds_least_nonce [OF ex] obtain m where
    run: "proof_of_work sample_candidate =
      Some (sample_candidate\<lparr>nonce := m\<rparr>, compute_hash (sample_candidate\<lparr>nonce := m\<rparr>))"
    and pos: "0 \<le> m"
    and zeros: "leading_zeros difficulty (compute_hash (sample_candidate\<lparr>nonce := m\<rparr>))"
    and least: "\<forall>k. 0 \<le> k \<and> k < m \<longrightarrow>
      \<not> leading_zeros difficulty (compute_hash (sample_candidate\<lparr>nonce := k\<rparr>))"
    and valid: "is_valid_proof (sample_candidate\<lparr>nonce := m\<rparr>)
      (compute_hash (sample_candidate\<lparr>nonce := m\<rparr>))"
    by blast
  from least hit have "\<not> 1 < m" by force
  moreover from zeros candidate_0_no_zeros have "m \<noteq> 0" by auto
  ultimately have "m = 1" using pos by simp
  with run valid hit candidate_0_no_zeros show ?thesis
    by (simp add: compute_hash_candidate_1)
qed




end
